theory Spec2Isabelle
  imports Complex_Main
begin

section \<open>Values and contexts of the template helpers\<close>

text \<open>
  The templating helpers read properties of the context object \<^verbatim>\<open>this\<close> and of the
  option hash. A property holds a JavaScript value; the values that matter
  to the helpers are \<^verbatim>\<open>undefined\<close> (also: the property is absent), \<^verbatim>\<open>null\<close>, booleans
  and numbers. A number is a real (the doubles are among them; NaN and the infinities
  are not stored, and the NaN that \<^verbatim>\<open>ToNumber(undefined)\<close> yields is \<open>None\<close>). Strings as
  property values are outside the model.
\<close>

datatype jsval = JUndefined | JNull | JBool bool | JNum real

text \<open>JavaScript's \<^verbatim>\<open>ToNumber\<close>; \<open>None\<close> is NaN.\<close>

fun toNumber :: "jsval \<Rightarrow> real option" where
  "toNumber JUndefined = None"
| "toNumber JNull = Some 0"
| "toNumber (JBool b) = Some (if b then 1 else 0)"
| "toNumber (JNum r) = Some r"

text \<open>\<^verbatim>\<open>v != null\<close>: loose inequality, false exactly for \<^verbatim>\<open>null\<close> and \<^verbatim>\<open>undefined\<close>.\<close>

fun notNull :: "jsval \<Rightarrow> bool" where
  "notNull JUndefined = False"
| "notNull JNull = False"
| "notNull _ = True"

text \<open>
  \<^verbatim>\<open>v == n\<close> for a number \<open>n\<close> (\<open>None\<close> is NaN): \<^verbatim>\<open>null\<close> and \<^verbatim>\<open>undefined\<close> equal no
  number, a boolean is converted, NaN equals nothing.
\<close>

fun looseEqNum :: "jsval \<Rightarrow> real option \<Rightarrow> bool" where
  "looseEqNum JUndefined n = False"
| "looseEqNum JNull n = False"
| "looseEqNum v n = (case (toNumber v, n) of (Some a, Some b) \<Rightarrow> a = b | _ \<Rightarrow> False)"

text \<open>\<^verbatim>\<open>v - 1\<close>.\<close>

definition minusOne :: "jsval \<Rightarrow> real option" where
  "minusOne v = map_option (\<lambda>c. c - 1) (toNumber v)"

text \<open>
  A context object. \<open>ctx_global\<close> is a reference: the address of the render pass's
  global object in the store, so that two contexts share a global exactly when the
  addresses are equal. \<open>ctx_parent\<close> is the enclosing context (\<open>None\<close> at the root).
  Contexts are never mutated by the helpers, so the parent is held by value.
\<close>

datatype ctxt = Context
  (ctx_global: nat)
  (ctx_parent: "ctxt option")
  (ctx_index: jsval)
  (ctx_count: jsval)
  (ctx_sum: jsval)
  (ctx_value: jsval)

text \<open>
  The block body \<^verbatim>\<open>options.fn\<close>: a compiled template, a function from the context it
  is rendered in to the text it produces.
\<close>

type_synonym body = "ctxt \<Rightarrow> string"

section \<open>Positional block helpers\<close>

text \<open>
  Each helper returns \<^verbatim>\<open>options.fn(this)\<close> when its condition holds and falls off the
  end of the function otherwise: the result is then \<^verbatim>\<open>undefined\<close>, here \<open>None\<close>.
\<close>

definition first :: "ctxt \<Rightarrow> body \<Rightarrow> string option" where
  "first this fn =
     (if notNull (ctx_index this) \<and> notNull (ctx_count this)
         \<and> looseEqNum (ctx_index this) (Some 0)
      then Some (fn this) else None)"

definition last_helper :: "ctxt \<Rightarrow> body \<Rightarrow> string option" where
  "last_helper this fn =
     (if notNull (ctx_index this) \<and> notNull (ctx_count this)
         \<and> looseEqNum (ctx_index this) (minusOne (ctx_count this))
      then Some (fn this) else None)"

definition not_last :: "ctxt \<Rightarrow> body \<Rightarrow> string option" where
  "not_last this fn =
     (if notNull (ctx_index this) \<and> notNull (ctx_count this)
         \<and> \<not> looseEqNum (ctx_index this) (minusOne (ctx_count this))
      then Some (fn this) else None)"

definition middle :: "ctxt \<Rightarrow> body \<Rightarrow> string option" where
  "middle this fn =
     (if notNull (ctx_index this) \<and> notNull (ctx_count this)
         \<and> \<not> looseEqNum (ctx_index this) (Some 0)
         \<and> \<not> looseEqNum (ctx_index this) (minusOne (ctx_count this))
      then Some (fn this) else None)"

text \<open>What the template engine writes for a helper's result: nothing for \<^verbatim>\<open>undefined\<close>.\<close>

definition rendered :: "string option \<Rightarrow> string" where
  "rendered r = (case r of None \<Rightarrow> [] | Some s \<Rightarrow> s)"

section \<open>The render pass's global object and the store\<close>

text \<open>
  An accumulator register \<^verbatim>\<open>{ value: [], sum: [], currentSum: 0 }\<close>. The recorded values
  are JavaScript values; the sums are numbers.
\<close>

record accumulator =
  acc_value :: "jsval list"
  acc_sum :: "real list"
  acc_currentSum :: real

text \<open>
  A promise as the barrier sees it: an identity, and when and how it settles (\<open>None\<close>:
  never; \<open>Some (t, True)\<close>: resolved at time \<open>t\<close>; \<open>Some (t, False)\<close>: rejected at time
  \<open>t\<close>). Time is counted in milliseconds. A settled promise stays settled.
\<close>

record promise =
  pid :: nat
  settles :: "(nat \<times> bool) option"

text \<open>
  The global object: \<^verbatim>\<open>global.accumulators\<close> (\<open>None\<close> while the property is absent) maps
  a register's name to the register, \<^verbatim>\<open>global.promises\<close> is the list of pending
  operations. The table of registers is a map over the names stored in it.
\<close>

record global_obj =
  accumulators :: "(string \<rightharpoonup> accumulator) option"
  promises :: "promise list"

text \<open>
  The store: the global objects by address, and the identity of the next promise
  object to be created.
\<close>

record store =
  globals :: "nat \<Rightarrow> global_obj"
  nextPid :: nat

section \<open>Iteration block\<close>

text \<open>\<^verbatim>\<open>i < v\<close> for the loop counter \<open>i\<close>: \<open>v\<close> is converted to a number, NaN compares false.\<close>

definition lessThanVal :: "nat \<Rightarrow> jsval \<Rightarrow> bool" where
  "lessThanVal i v = (case toNumber v of None \<Rightarrow> False | Some c \<Rightarrow> real i < c)"

text \<open>The object literal built in the loop of \<^verbatim>\<open>iterate\<close>.\<close>

definition iterate_newContext :: "ctxt \<Rightarrow> jsval \<Rightarrow> nat \<Rightarrow> ctxt" where
  "iterate_newContext this cnt i =
     Context (ctx_global this) (Some this) (JNum (real i)) cnt JUndefined JUndefined"

function iterate_loop :: "ctxt \<Rightarrow> jsval \<Rightarrow> body \<Rightarrow> nat \<Rightarrow> string \<Rightarrow> string" where
  "iterate_loop this cnt fn i ret =
     (if lessThanVal i cnt
      then iterate_loop this cnt fn (Suc i) (ret @ fn (iterate_newContext this cnt i))
      else ret)"
  by pat_completeness auto
termination
proof (relation "measure (\<lambda>(this, cnt, fn, i, ret).
                   case toNumber cnt of None \<Rightarrow> 0 | Some c \<Rightarrow> nat \<lceil>c\<rceil> - i)")
  show "wf (measure (\<lambda>(this, cnt, fn, i, ret).
                   case toNumber cnt of None \<Rightarrow> 0 | Some c \<Rightarrow> nat \<lceil>c\<rceil> - i))"
    by simp
next
  fix this :: ctxt and cnt :: jsval and fn :: body and i :: nat and ret :: string
  assume "lessThanVal i cnt"
  then obtain c where c: "toNumber cnt = Some c" "real i < c"
    by (auto simp: lessThanVal_def split: option.splits)
  from c(2) have "i < nat \<lceil>c\<rceil>"
    by linarith
  with c(1) show "((this, cnt, fn, Suc i, ret @ fn (iterate_newContext this cnt i)),
                  (this, cnt, fn, i, ret))
        \<in> measure (\<lambda>(this, cnt, fn, i, ret).
                   case toNumber cnt of None \<Rightarrow> 0 | Some c \<Rightarrow> nat \<lceil>c\<rceil> - i)"
    by simp
qed

declare iterate_loop.simps [simp del]

text \<open>\<^verbatim>\<open>iterate(options)\<close> with \<open>cnt\<close> the value of \<^verbatim>\<open>options.hash.count\<close>.\<close>

definition iterate :: "ctxt \<Rightarrow> jsval \<Rightarrow> body \<Rightarrow> string" where
  "iterate this cnt fn = iterate_loop this cnt fn 0 []"

section \<open>Accumulators\<close>

text \<open>The exception that reading a property of \<^verbatim>\<open>undefined\<close> raises.\<close>

datatype error = TypeError

text \<open>
  The table \<^verbatim>\<open>global.accumulators\<close> is created as the object literal \<^verbatim>\<open>{}\<close>, so it
  inherits the properties of \<^verbatim>\<open>Object.prototype\<close>. For their names \<^verbatim>\<open>name in table\<close>
  holds although no register was stored, and \<^verbatim>\<open>table[name]\<close> is the inherited function
  or object, which has no property \<^verbatim>\<open>value\<close>.
\<close>

definition objectPrototypeNames :: "string list" where
  "objectPrototypeNames =
     [''constructor'', ''__defineGetter__'', ''__defineSetter__'', ''hasOwnProperty'',
      ''__lookupGetter__'', ''__lookupSetter__'', ''isPrototypeOf'',
      ''propertyIsEnumerable'', ''toString'', ''valueOf'', ''__proto__'',
      ''toLocaleString'']"

text \<open>\<^verbatim>\<open>name in table\<close>, for a table that holds the registers \<open>accs\<close>.\<close>

definition hasProperty :: "(string \<rightharpoonup> accumulator) \<Rightarrow> string \<Rightarrow> bool" where
  "hasProperty accs name \<longleftrightarrow> accs name \<noteq> None \<or> name \<in> set objectPrototypeNames"

text \<open>
  The body of \<^verbatim>\<open>addToAccumulator\<close> from the push on, for a register that exists.
  \<^verbatim>\<open>lastSum + value\<close> is only evaluated for a value that is neither \<^verbatim>\<open>null\<close> nor
  \<^verbatim>\<open>undefined\<close>, whose conversion to a number is never NaN. The addition is the
  language's addition of numbers, which rounds its result to a double; it is the
  parameter \<open>add\<close>.
\<close>

definition emptyAccumulator :: accumulator where
  "emptyAccumulator = \<lparr>acc_value = [], acc_sum = [], acc_currentSum = 0\<rparr>"

definition pushValue :: "(real \<Rightarrow> real \<Rightarrow> real) \<Rightarrow> accumulator \<Rightarrow> jsval \<Rightarrow> accumulator" where
  "pushValue add acc v =
     (let lastSum = acc_currentSum acc;
          newSum = (if notNull v
                    then (case toNumber v of Some r \<Rightarrow> add lastSum r | None \<Rightarrow> lastSum)
                    else lastSum)
      in \<lparr>acc_value = acc_value acc @ [v],
          acc_sum = acc_sum acc @ [newSum],
          acc_currentSum = newSum\<rparr>)"

text \<open>
  \<^verbatim>\<open>addToAccumulator(accumulator, value)\<close>. The table is created when the global object
  has none, and the register when \<^verbatim>\<open>accumulator in table\<close> is false. Then
  \<^verbatim>\<open>table[accumulator].value.push(value)\<close> is evaluated: for a name that is inherited and
  not stored, \<^verbatim>\<open>.value\<close> is \<^verbatim>\<open>undefined\<close> and the call raises a \<^verbatim>\<open>TypeError\<close>. The
  result is the exception, if one was raised, and the store as the call leaves it.
\<close>

definition addToAccumulator ::
  "(real \<Rightarrow> real \<Rightarrow> real) \<Rightarrow> ctxt \<Rightarrow> string \<Rightarrow> jsval \<Rightarrow> store \<Rightarrow> error option \<times> store" where
  "addToAccumulator add this name v st =
     (let g = globals st (ctx_global this);
          accs = (case accumulators g of None \<Rightarrow> Map.empty | Some a \<Rightarrow> a);
          accs1 = (if \<not> hasProperty accs name then accs(name \<mapsto> emptyAccumulator) else accs);
          put = (\<lambda>t. st\<lparr>globals := (globals st)
                           (ctx_global this := g\<lparr>accumulators := Some t\<rparr>)\<rparr>)
      in case accs1 name of
           None \<Rightarrow> (Some TypeError, put accs1)
         | Some acc \<Rightarrow> (None, put (accs1(name \<mapsto> pushValue add acc v))))"

text \<open>A sequence of calls on one register, in order; an exception ends it.\<close>

fun addAll ::
  "(real \<Rightarrow> real \<Rightarrow> real) \<Rightarrow> ctxt \<Rightarrow> string \<Rightarrow> jsval list \<Rightarrow> store \<Rightarrow> error option \<times> store" where
  "addAll add this name [] st = (None, st)"
| "addAll add this name (v # vs) st =
     (case addToAccumulator add this name v st of
        (None, st') \<Rightarrow> addAll add this name vs st'
      | (Some e, st') \<Rightarrow> (Some e, st'))"

text \<open>The register of a name as a context sees it, if there is one.\<close>

definition register :: "ctxt \<Rightarrow> string \<Rightarrow> store \<Rightarrow> accumulator option" where
  "register this name st =
     (case accumulators (globals st (ctx_global this)) of
        None \<Rightarrow> None
      | Some accs \<Rightarrow> accs name)"

text \<open>
  \<^verbatim>\<open>accumulator.sum[i]\<close>: reading an array beyond its end gives \<^verbatim>\<open>undefined\<close>.
\<close>

definition sumAt :: "accumulator \<Rightarrow> nat \<Rightarrow> jsval" where
  "sumAt acc i = (if i < length (acc_sum acc) then JNum (acc_sum acc ! i) else JUndefined)"

definition valueAt :: "accumulator \<Rightarrow> nat \<Rightarrow> jsval" where
  "valueAt acc i = (if i < length (acc_value acc) then acc_value acc ! i else JUndefined)"

definition iterateAccumulator_newContext :: "ctxt \<Rightarrow> accumulator \<Rightarrow> nat \<Rightarrow> ctxt" where
  "iterateAccumulator_newContext this acc i =
     Context (ctx_global this) (Some this) (JNum (real i))
       (JNum (real (length (acc_value acc)))) (sumAt acc i) (valueAt acc i)"

function iterateAccumulator_loop ::
  "ctxt \<Rightarrow> accumulator \<Rightarrow> body \<Rightarrow> nat \<Rightarrow> string \<Rightarrow> string" where
  "iterateAccumulator_loop this acc fn i ret =
     (if i < length (acc_value acc)
      then iterateAccumulator_loop this acc fn (Suc i)
             (ret @ fn (iterateAccumulator_newContext this acc i))
      else ret)"
  by pat_completeness auto
termination
  by (relation "measure (\<lambda>(this, acc, fn, i, ret). length (acc_value acc) - i)") auto

declare iterateAccumulator_loop.simps [simp del]

text \<open>
  \<^verbatim>\<open>iterateAccumulator(options)\<close> with \<open>name\<close> the value of \<^verbatim>\<open>options.hash.accumulator\<close>.
  The helper only reads the store. \<^verbatim>\<open>table[name]\<close> is the register stored under the name;
  without one it is \<^verbatim>\<open>undefined\<close>, unless the name is inherited: then it is an object,
  the test \<^verbatim>\<open>accumulator != null\<close> succeeds, and the loop test reads
  \<^verbatim>\<open>accumulator.value.length\<close> of an \<^verbatim>\<open>undefined\<close> \<^verbatim>\<open>value\<close>, which raises a \<^verbatim>\<open>TypeError\<close>.
\<close>

definition iterateAccumulator :: "ctxt \<Rightarrow> string \<Rightarrow> body \<Rightarrow> store \<Rightarrow> error + string" where
  "iterateAccumulator this name fn st =
     (case accumulators (globals st (ctx_global this)) of
        None \<Rightarrow> Inr []
      | Some accs \<Rightarrow>
          (case accs name of
             Some acc \<Rightarrow> Inr (iterateAccumulator_loop this acc fn 0 [])
           | None \<Rightarrow> if name \<in> set objectPrototypeNames then Inl TypeError else Inr []))"

section \<open>String helpers\<close>

text \<open>
  Strings are lists of characters with the codes 0 to 255. \<^verbatim>\<open>trim\<close> removes white space
  and line terminators from both ends: among these characters the tab, the line feed,
  the vertical tab, the form feed, the carriage return, the space and the no-break
  space (the white space with codes above 255 cannot occur in such a string).
  \<^verbatim>\<open>split(' ')\<close> cuts at every space character and returns the pieces, also the empty
  ones.
\<close>

definition isWhiteSpace :: "char \<Rightarrow> bool" where
  "isWhiteSpace c \<longleftrightarrow>
     c \<in> set [CHR 0x20, CHR 0x09, CHR 0x0A, CHR 0x0B, CHR 0x0C, CHR 0x0D, CHR 0xA0]"

definition trim :: "string \<Rightarrow> string" where
  "trim s = rev (dropWhile isWhiteSpace (rev (dropWhile isWhiteSpace s)))"

fun split_on :: "char \<Rightarrow> string \<Rightarrow> string list" where
  "split_on c [] = [[]]"
| "split_on c (x # xs) =
     (if x = c then [] # split_on c xs
      else (case split_on c xs of
              [] \<Rightarrow> [[x]]
            | w # ws \<Rightarrow> (x # w) # ws))"

text \<open>
  \<^verbatim>\<open>asLastWord(str)\<close>, with both of its return statements: the second one is kept as the
  \<open>else\<close> branch.
\<close>

definition asLastWord :: "string \<Rightarrow> string" where
  "asLastWord str =
     (let strings = split_on (CHR '' '') (trim str)
      in if length strings > 0 then strings ! (length strings - 1) else trim str)"

section \<open>The barrier\<close>

text \<open>\<^verbatim>\<open>promise.isResolved()\<close> and \<^verbatim>\<open>promise.isRejected()\<close> at time \<open>t\<close>.\<close>

definition isResolved :: "promise \<Rightarrow> nat \<Rightarrow> bool" where
  "isResolved p t = (case settles p of Some (ts, True) \<Rightarrow> ts \<le> t | _ \<Rightarrow> False)"

definition isRejected :: "promise \<Rightarrow> nat \<Rightarrow> bool" where
  "isRejected p t = (case settles p of Some (ts, False) \<Rightarrow> ts \<le> t | _ \<Rightarrow> False)"

text \<open>
  \<^verbatim>\<open>waitForSynchronousPromise\<close>, called at time \<open>now\<close>: it looks at the promise and calls
  \<^verbatim>\<open>resolve\<close> or \<^verbatim>\<open>reject\<close>, or asks the timer to call it again \<open>pollInterval\<close>
  milliseconds later. The result says when and how the wrapping promise settles. The
  function may poll forever; the first argument bounds the number of times it looks at
  the promise, and \<open>None\<close> says that the wrapping promise has not settled within them.
\<close>

fun waitForSynchronousPromise ::
  "nat \<Rightarrow> nat \<Rightarrow> promise \<Rightarrow> nat \<Rightarrow> (nat \<times> bool) option" where
  "waitForSynchronousPromise 0 pollInterval p now = None"
| "waitForSynchronousPromise (Suc fuel) pollInterval p now =
     (if isResolved p now then Some (now, True)
      else if isRejected p now then Some (now, False)
      else waitForSynchronousPromise fuel pollInterval p (now + pollInterval))"

text \<open>
  \<^verbatim>\<open>Promise.all\<close> of promises that settle as the list says: it rejects as soon as one of
  them rejects, and resolves once all have resolved.
\<close>

definition rejectionTimes :: "(nat \<times> bool) option list \<Rightarrow> nat list" where
  "rejectionTimes ws = [t. Some (t, False) \<leftarrow> ws]"

definition promise_all :: "nat \<Rightarrow> (nat \<times> bool) option list \<Rightarrow> (nat \<times> bool) option" where
  "promise_all now ws =
     (case rejectionTimes ws of
        t # ts \<Rightarrow> Some (fold min ts t, False)
      | [] \<Rightarrow>
          (if list_all (\<lambda>w. w \<noteq> None) ws
           then Some (fold max [t. Some (t, True) \<leftarrow> ws] now, True)
           else None))"

definition promiseToResolveAllPreviousPromises ::
  "nat \<Rightarrow> promise list \<Rightarrow> nat \<Rightarrow> (nat \<times> bool) option" where
  "promiseToResolveAllPreviousPromises fuel globalPromises now =
     (if length globalPromises = 0 then Some (now, True)
      else promise_all now
             (map (\<lambda>p. waitForSynchronousPromise fuel 100 p now) globalPromises))"

text \<open>How the promise returned by \<^verbatim>\<open>after\<close> ends: with the body's text, or rejected.\<close>

datatype barrier_result = Rendered string | Failed

definition after_newContext :: "ctxt \<Rightarrow> ctxt" where
  "after_newContext this =
     Context (ctx_global this) (Some this) JUndefined JUndefined JUndefined JUndefined"

text \<open>
  \<^verbatim>\<open>after(options)\<close>, called at time \<open>now\<close>: the list \<^verbatim>\<open>this.global.promises\<close> is read from
  the store at the call. The result is the time at which the returned promise settles
  and how; the body is called in the \<^verbatim>\<open>then\<close> callback, so at that time and only when
  the wait resolved.
\<close>

definition after :: "nat \<Rightarrow> ctxt \<Rightarrow> body \<Rightarrow> store \<Rightarrow> nat \<Rightarrow> (nat \<times> barrier_result) option" where
  "after fuel this fn st now =
     (case promiseToResolveAllPreviousPromises fuel
             (promises (globals st (ctx_global this))) now of
        None \<Rightarrow> None
      | Some (t, True) \<Rightarrow> Some (t, Rendered (fn (after_newContext this)))
      | Some (t, False) \<Rightarrow> Some (t, Failed))"

section \<open>Option lookups\<close>

text \<open>
  \<^verbatim>\<open>p.then(cb)\<close> creates a new promise object. It rejects when \<open>p\<close> rejects; when \<open>p\<close>
  resolves at time \<open>t\<close> the callback runs, and the new promise settles as what the
  callback returns does: \<open>cb t\<close>.
\<close>

definition promise_then ::
  "promise \<Rightarrow> (nat \<Rightarrow> (nat \<times> bool) option) \<Rightarrow> store \<Rightarrow> promise \<times> store" where
  "promise_then p cb st =
     (\<lparr>pid = nextPid st,
       settles = (case settles p of
                    None \<Rightarrow> None
                  | Some (t, False) \<Rightarrow> Some (t, False)
                  | Some (t, True) \<Rightarrow> cb t)\<rparr>,
      st\<lparr>nextPid := Suc (nextPid st)\<rparr>)"

text \<open>
  The helpers call three functions of other modules, which are parameters here:
  \<open>ensureTemplatePackageId\<close> is called at once, with the context, and may change the
  store; \<open>selectAllOptionsValues\<close>, \<open>selectSpecificOptionValue\<close> and \<open>collectBlocks\<close> run
  later, inside the callbacks, and are given as the way their results settle when
  they are called at a time.
\<close>

definition template_options ::
  "(ctxt \<Rightarrow> store \<Rightarrow> promise \<times> store) \<Rightarrow> (nat \<Rightarrow> (nat \<times> bool) option)
   \<Rightarrow> (nat \<Rightarrow> (nat \<times> bool) option) \<Rightarrow> ctxt \<Rightarrow> store \<Rightarrow> promise \<times> store" where
  "template_options ensureTemplatePackageId selectAllOptionsValues collectBlocks this st =
     (let (p0, st0) = ensureTemplatePackageId this st;
          (p1, st1) = promise_then p0 selectAllOptionsValues st0
      in promise_then p1 collectBlocks st1)"

definition template_option_with_code ::
  "(ctxt \<Rightarrow> store \<Rightarrow> promise \<times> store) \<Rightarrow> (nat \<Rightarrow> (nat \<times> bool) option)
   \<Rightarrow> ctxt \<Rightarrow> store \<Rightarrow> promise \<times> store" where
  "template_option_with_code ensureTemplatePackageId selectSpecificOptionValue this st =
     (let (p0, st0) = ensureTemplatePackageId this st
      in promise_then p0 selectSpecificOptionValue st0)"

section \<open>Auxiliary notions and sample data\<close>

text \<open>
  The number of times the loop of \<^verbatim>\<open>iterate\<close> runs for a count: the least natural
  number that is not below the count converted to a number, and none for NaN.
\<close>

definition iterations :: "jsval \<Rightarrow> nat" where
  "iterations cnt = (case toNumber cnt of None \<Rightarrow> 0 | Some c \<Rightarrow> nat \<lceil>c\<rceil>)"

text \<open>A root context, and a body that writes a letter for the index it is given.\<close>

definition rootContext :: ctxt where
  "rootContext = Context 0 None JUndefined JUndefined JUndefined JUndefined"

definition markBody :: body where
  "markBody c = (if ctx_index c = JNum 0 then ''a''
                 else if ctx_index c = JNum 1 then ''b''
                 else if ctx_index c = JNum 2 then ''c'' else ''-'')"

text \<open>Contexts inside an iteration: its only step, and the middle one of three.\<close>

definition onlyContext :: ctxt where
  "onlyContext = Context 0 None (JNum 0) (JNum 1) JUndefined JUndefined"

definition middleContext :: ctxt where
  "middleContext = Context 0 None (JNum 1) (JNum 3) JUndefined JUndefined"

text \<open>
  The numbers of a list of values, added from the left with \<open>add\<close>, starting from \<open>s\<close>:
  for a list of numbers and \<^verbatim>\<open>null\<close>s, the running sum of its non-null values as the
  language computes it. \<open>numberOrNull\<close> says that a value is a number or \<^verbatim>\<open>null\<close>, and
  \<open>sumNonNull\<close> is the exact sum of the non-null values.
\<close>

definition sumFrom :: "(real \<Rightarrow> real \<Rightarrow> real) \<Rightarrow> real \<Rightarrow> jsval list \<Rightarrow> real" where
  "sumFrom add s vs = foldl add s [r. JNum r \<leftarrow> vs]"

definition sumNonNull :: "jsval list \<Rightarrow> real" where
  "sumNonNull vs = sum_list [r. JNum r \<leftarrow> vs]"

definition numberOrNull :: "jsval \<Rightarrow> bool" where
  "numberOrNull v = (case v of JNull \<Rightarrow> True | JNum r \<Rightarrow> True | _ \<Rightarrow> False)"

text \<open>
  The addition of two doubles: the exact sum, rounded to the nearest double, a tie
  going to the one with the even significand. A double has 53 significant bits, and
  below \<open>2 ^ - 1022\<close> the spacing of the doubles stays \<open>2 ^ - 1074\<close>. Sums that overflow
  (beyond the largest double the language gives \<^verbatim>\<open>Infinity\<close>) are not covered.
\<close>

definition roundHalfEven :: "real \<Rightarrow> int" where
  "roundHalfEven q =
     (let f = \<lfloor>q\<rfloor>
      in if q - of_int f < 1 / 2 then f
         else if 1 / 2 < q - of_int f then f + 1
         else if even f then f else f + 1)"

definition toDouble :: "real \<Rightarrow> real" where
  "toDouble x =
     (if x = 0 then 0
      else (let e = max \<lfloor>log 2 \<bar>x\<bar>\<rfloor> (- 1022);
                ulp = 2 powr (of_int e - 52)
            in of_int (roundHalfEven (x / ulp)) * ulp))"

definition doubleAdd :: "real \<Rightarrow> real \<Rightarrow> real" where
  "doubleAdd x y = toDouble (x + y)"

text \<open>
  A store at the start of a render pass, the store after recording 4 under the name
  \<^verbatim>\<open>offset\<close>, the store after recording 4, 8 and \<^verbatim>\<open>null\<close> under it, and a body that
  writes the sum it is given.
\<close>

definition emptyStore :: store where
  "emptyStore = \<lparr>globals = (\<lambda>a. \<lparr>accumulators = None, promises = []\<rparr>), nextPid = 0\<rparr>"

definition tableStore :: store where
  "tableStore = snd (addToAccumulator doubleAdd rootContext ''offset'' (JNum 4) emptyStore)"

definition offsetStore :: store where
  "offsetStore = snd (addAll doubleAdd rootContext ''offset'' [JNum 4, JNum 8, JNull] emptyStore)"

definition valueBody :: body where
  "valueBody c = (if ctx_sum c = JNum 4 then ''4;''
                  else if ctx_sum c = JNum 12 \<and> ctx_value c = JNum 8 then ''12;''
                  else if ctx_sum c = JNum 12 \<and> ctx_value c = JNull then ''12.''
                  else ''?'')"

text \<open>
  A store whose global object holds the given pending operations, and three promises:
  two that resolve, after 250 and after 120 milliseconds, and one that is rejected
  after 130 milliseconds.
\<close>

definition pendingStore :: "promise list \<Rightarrow> store" where
  "pendingStore ps = \<lparr>globals = (\<lambda>a. \<lparr>accumulators = None, promises = ps\<rparr>), nextPid = length ps\<rparr>"

definition slowPromise :: promise where
  "slowPromise = \<lparr>pid = 0, settles = Some (250, True)\<rparr>"

definition fastPromise :: promise where
  "fastPromise = \<lparr>pid = 1, settles = Some (120, True)\<rparr>"

definition failingPromise :: promise where
  "failingPromise = \<lparr>pid = 2, settles = Some (130, False)\<rparr>"

text \<open>
  The contexts of a render pass: the root, and every context that one of the helpers
  builds for a context of the pass.
\<close>

inductive descendant :: "ctxt \<Rightarrow> ctxt \<Rightarrow> bool" for rt :: ctxt where
  descendant_root: "descendant rt rt"
| descendant_iterate:
    "descendant rt c \<Longrightarrow> descendant rt (iterate_newContext c cnt i)"
| descendant_iterateAccumulator:
    "descendant rt c \<Longrightarrow> descendant rt (iterateAccumulator_newContext c acc i)"
| descendant_after:
    "descendant rt c \<Longrightarrow> descendant rt (after_newContext c)"

text \<open>The second step of an iteration inside a barrier at the root.\<close>

definition nestedContext :: ctxt where
  "nestedContext = iterate_newContext (after_newContext rootContext) (JNum 2) 1"

text \<open>
  Sample collaborators of the option lookups: a package lookup that creates a promise
  resolving after 10 milliseconds and itself puts it into \<^verbatim>\<open>global.promises\<close>, a query
  that takes 400 milliseconds, and a block collection that returns at once.
\<close>

definition registeringPackageId :: "ctxt \<Rightarrow> store \<Rightarrow> promise \<times> store" where
  "registeringPackageId this st =
     (let p = \<lparr>pid = nextPid st, settles = Some (10, True)\<rparr>;
          g = globals st (ctx_global this)
      in (p, st\<lparr>globals := (globals st)(ctx_global this := g\<lparr>promises := promises g @ [p]\<rparr>),
                nextPid := Suc (nextPid st)\<rparr>))"

definition slowLookup :: "nat \<Rightarrow> (nat \<times> bool) option" where
  "slowLookup t = Some (t + 400, True)"

definition collectNow :: "nat \<Rightarrow> (nat \<times> bool) option" where
  "collectNow t = Some (t, True)"

section \<open>Properties of the iteration block\<close>

lemma lessThanVal_iterations: "lessThanVal i cnt \<longleftrightarrow> i < iterations cnt"
proof (cases "toNumber cnt")
  case None
  then show ?thesis by (simp add: lessThanVal_def iterations_def)
next
  case (Some c)
  have "real i < c \<longleftrightarrow> i < nat \<lceil>c\<rceil>" by linarith
  with Some show ?thesis by (simp add: lessThanVal_def iterations_def)
qed

lemma iterate_loop_concat:
  "iterate_loop this cnt fn i ret =
     ret @ concat (map (\<lambda>k. fn (iterate_newContext this cnt k)) [i..<iterations cnt])"
proof (induction this cnt fn i ret rule: iterate_loop.induct)
  case (1 this cnt fn i ret)
  show ?case
  proof (cases "lessThanVal i cnt")
    case True
    then have "i < iterations cnt" by (simp add: lessThanVal_iterations)
    then have "[i..<iterations cnt] = i # [Suc i..<iterations cnt]"
      by (simp add: upt_conv_Cons)
    with True 1 show ?thesis by (subst iterate_loop.simps) simp
  next
    case False
    then have "\<not> i < iterations cnt" by (simp add: lessThanVal_iterations)
    with False show ?thesis by (subst iterate_loop.simps) simp
  qed
qed

text \<open>
  Claim C6. For every context and every count that is a natural number \<open>n\<close>, \<open>iterate\<close>
  returns the concatenation of exactly \<open>n\<close> blocks in index order, the \<open>i\<close>-th being
  the body rendered in a child context with index \<open>i\<close> and count \<open>n\<close>; for the count 0
  the result is the empty string.
\<close>

theorem iterate_renders_count_blocks:
  "iterate this (JNum (real n)) fn =
     concat (map (\<lambda>i. fn (Context (ctx_global this) (Some this) (JNum (real i))
                            (JNum (real n)) JUndefined JUndefined)) [0..<n])
   \<and> length (map (\<lambda>i. fn (Context (ctx_global this) (Some this) (JNum (real i))
                            (JNum (real n)) JUndefined JUndefined)) [0..<n]) = n
   \<and> iterate this (JNum 0) fn = []"
  by (simp add: iterate_def iterate_loop_concat iterations_def iterate_newContext_def)

text \<open>
  Claim C3, as stated, fails: \<open>iterate\<close> has no check of its count and no way to report
  an error. With the count 5/2 it renders three blocks, with the count -1 or
  \<^verbatim>\<open>undefined\<close> it renders the empty string, and the boolean \<^verbatim>\<open>true\<close> is converted to 1.
\<close>

theorem iterate_no_rejection_counterexample:
  "iterate rootContext (JNum (5 / 2)) markBody = ''abc''
   \<and> iterate rootContext (JNum (- 1)) markBody = []
   \<and> iterate rootContext (JBool True) markBody = ''a''
   \<and> iterate rootContext JUndefined markBody = []"
  by (simp add: iterate_def iterate_loop_concat iterations_def iterate_newContext_def
      markBody_def eval_nat_numeral)

text \<open>
  Claim C3, amended. For every count, of whatever value, \<open>iterate\<close> returns a string and
  reports no error: the count is converted to a number by the comparison of the loop,
  and one block is rendered for each natural number below it, in index order, each in
  a child context that carries the count as it was given; that is no block for a
  count that is zero, negative or not a number, and the count rounded up otherwise.
\<close>

theorem iterate_coerces_count:
  "iterate this cnt fn =
     concat (map (\<lambda>i. fn (Context (ctx_global this) (Some this) (JNum (real i)) cnt
                            JUndefined JUndefined)) [0..<iterations cnt])"
  by (simp add: iterate_def iterate_loop_concat iterate_newContext_def)

section \<open>Properties of the positional helpers\<close>

lemma looseEqNum_JNum: "looseEqNum (JNum a) n \<longleftrightarrow> n = Some a"
  by (cases n) auto

text \<open>
  Claim C7. In a context whose index is an integer and whose count is a number, with
  \<open>0 \<le> index < count\<close>: when the count is 1, \<open>first\<close> and \<open>last\<close> both render their
  body while \<open>middle\<close> and \<open>not_last\<close> render nothing; when the count is greater than 1,
  exactly one of \<open>first\<close> (index 0), \<open>last\<close> (index count - 1) and \<open>middle\<close> (any other
  index) renders its body.
\<close>

theorem positional_helpers_partition:
  assumes "ctx_index this = JNum (of_int i)" and "ctx_count this = JNum n"
    and "0 \<le> i" and "of_int i < n"
  shows "(n = 1 \<longrightarrow>
            first this fn = Some (fn this) \<and> last_helper this fn = Some (fn this)
            \<and> middle this fn = None \<and> not_last this fn = None)
       \<and> (n > 1 \<longrightarrow>
            (i = 0 \<and> first this fn = Some (fn this)
               \<and> last_helper this fn = None \<and> middle this fn = None)
          \<or> (of_int i = n - 1 \<and> first this fn = None
               \<and> last_helper this fn = Some (fn this) \<and> middle this fn = None)
          \<or> (i \<noteq> 0 \<and> of_int i \<noteq> n - 1 \<and> first this fn = None
               \<and> last_helper this fn = None \<and> middle this fn = Some (fn this)))"
proof -
  have eq0: "looseEqNum (ctx_index this) (Some 0) \<longleftrightarrow> i = 0"
    using assms(1) by (simp add: looseEqNum_JNum)
  have eql: "looseEqNum (ctx_index this) (minusOne (ctx_count this)) \<longleftrightarrow> of_int i = n - 1"
    using assms(1,2) by (auto simp: looseEqNum_JNum minusOne_def)
  have nn: "notNull (ctx_index this)" "notNull (ctx_count this)"
    using assms(1,2) by simp_all
  have one: "i = 0" if "n = 1"
    using assms(3,4) that by simp
  show ?thesis
    using one by (auto simp: first_def last_helper_def middle_def not_last_def eq0 eql nn)
qed

theorem positional_helpers_partition_witness:
  "ctx_index onlyContext = JNum (of_int 0) \<and> ctx_count onlyContext = JNum (of_int 1)
   \<and> first onlyContext markBody = Some ''a'' \<and> last_helper onlyContext markBody = Some ''a''
   \<and> middle onlyContext markBody = None \<and> not_last onlyContext markBody = None
   \<and> ctx_index middleContext = JNum (of_int 1) \<and> ctx_count middleContext = JNum (of_int 3)
   \<and> first middleContext markBody = None \<and> last_helper middleContext markBody = None
   \<and> middle middleContext markBody = Some ''b''"
  using positional_helpers_partition [of onlyContext 0 1 markBody]
    positional_helpers_partition [of middleContext 1 3 markBody]
  by (simp add: onlyContext_def middleContext_def markBody_def)

text \<open>
  Claim C8. Each positional helper is a total function of the context and the body,
  with two outcomes only: the body's text is rendered, or nothing is (the empty
  string). Nothing is rendered whenever the index or the count is absent or \<^verbatim>\<open>null\<close>.
  With both set to numbers, \<open>first\<close> renders the body exactly for the index 0, \<open>last\<close>
  exactly for the index count - 1, \<open>not_last\<close> exactly for any other index than
  count - 1, and \<open>middle\<close> exactly for an index that is neither.
\<close>

theorem positional_helpers_render:
  "(ctx_index this = JUndefined \<or> ctx_index this = JNull
      \<or> ctx_count this = JUndefined \<or> ctx_count this = JNull \<longrightarrow>
      rendered (first this fn) = [] \<and> rendered (last_helper this fn) = []
      \<and> rendered (not_last this fn) = [] \<and> rendered (middle this fn) = [])
   \<and> (ctx_index this = JNum x \<and> ctx_count this = JNum c \<longrightarrow>
      rendered (first this fn) = (if x = 0 then fn this else [])
      \<and> rendered (last_helper this fn) = (if x = c - 1 then fn this else [])
      \<and> rendered (not_last this fn) = (if x \<noteq> c - 1 then fn this else [])
      \<and> rendered (middle this fn) = (if x \<noteq> 0 \<and> x \<noteq> c - 1 then fn this else []))
   \<and> (\<forall>h \<in> {first, last_helper, not_last, middle}.
        rendered (h this fn) = fn this \<or> rendered (h this fn) = [])"
proof -
  have absent: "rendered (first this fn) = [] \<and> rendered (last_helper this fn) = []
      \<and> rendered (not_last this fn) = [] \<and> rendered (middle this fn) = []"
    if "ctx_index this = JUndefined \<or> ctx_index this = JNull
      \<or> ctx_count this = JUndefined \<or> ctx_count this = JNull"
    using that by (auto simp: first_def last_helper_def not_last_def middle_def rendered_def)
  have set: "rendered (first this fn) = (if x = 0 then fn this else [])
      \<and> rendered (last_helper this fn) = (if x = c - 1 then fn this else [])
      \<and> rendered (not_last this fn) = (if x \<noteq> c - 1 then fn this else [])
      \<and> rendered (middle this fn) = (if x \<noteq> 0 \<and> x \<noteq> c - 1 then fn this else [])"
    if "ctx_index this = JNum x \<and> ctx_count this = JNum c"
    using that
    by (auto simp: first_def last_helper_def not_last_def middle_def rendered_def
        looseEqNum_JNum minusOne_def)
  have two: "\<forall>h \<in> {first, last_helper, not_last, middle}.
        rendered (h this fn) = fn this \<or> rendered (h this fn) = []"
    by (auto simp: first_def last_helper_def not_last_def middle_def rendered_def)
  from absent set two show ?thesis by blast
qed

theorem positional_helpers_render_witness:
  "ctx_index rootContext = JUndefined
   \<and> rendered (first rootContext markBody) = [] \<and> rendered (last_helper rootContext markBody) = []
   \<and> rendered (not_last rootContext markBody) = [] \<and> rendered (middle rootContext markBody) = []
   \<and> ctx_index middleContext = JNum 1 \<and> ctx_count middleContext = JNum 3
   \<and> rendered (first middleContext markBody) = []
   \<and> rendered (last_helper middleContext markBody) = []
   \<and> rendered (not_last middleContext markBody) = ''b''
   \<and> rendered (middle middleContext markBody) = ''b''
   \<and> rendered (first onlyContext markBody) = ''a''
   \<and> rendered (last_helper onlyContext markBody) = ''a''"
  using positional_helpers_render [of rootContext markBody 0 0]
    positional_helpers_render [of middleContext markBody 1 3]
    positional_helpers_render [of onlyContext markBody 0 1]
  by (simp add: rootContext_def middleContext_def onlyContext_def markBody_def)

section \<open>Properties of the accumulators\<close>

text \<open>The additions of doubles that the examples below need.\<close>

lemma floor_log2:
  assumes "2 ^ n \<le> x" and "x < 2 ^ Suc n"
  shows "\<lfloor>log 2 x\<rfloor> = int n"
proof -
  have "(0::real) < 2 ^ n" by simp
  with assms(1) have pos: "0 < x" by linarith
  have "real n \<le> log 2 x"
    using assms(1) pos by (simp add: le_log_iff powr_realpow)
  moreover have "log 2 x < real n + 1"
  proof -
    have "(2::real) powr real (Suc n) = 2 ^ Suc n" by (rule powr_realpow) simp
    with assms(2) have "x < 2 powr (real (Suc n))" by (simp only:)
    then have "log 2 x < real (Suc n)" using pos by (simp add: log_less_iff)
    then show ?thesis by simp
  qed
  ultimately show ?thesis by (simp add: floor_eq_iff)
qed

lemma doubleAdd_0_4: "doubleAdd 0 4 = 4"
proof -
  have "\<lfloor>log 2 (4::real)\<rfloor> = int 2" by (rule floor_log2) simp_all
  then show ?thesis
    by (simp add: doubleAdd_def toDouble_def roundHalfEven_def Let_def powr_minus)
qed

lemma doubleAdd_4_8: "doubleAdd 4 8 = 12"
proof -
  have "\<lfloor>log 2 (12::real)\<rfloor> = int 3" by (rule floor_log2) simp_all
  then show ?thesis
    by (simp add: doubleAdd_def toDouble_def roundHalfEven_def Let_def powr_minus)
qed

lemma doubleAdd_0_big: "doubleAdd 0 9007199254740992 = 9007199254740992"
proof -
  have "\<lfloor>log 2 (9007199254740992 :: real)\<rfloor> = int 53" by (rule floor_log2) simp_all
  then show ?thesis
    by (simp add: doubleAdd_def toDouble_def roundHalfEven_def Let_def powr_minus)
qed

lemma doubleAdd_big_1: "doubleAdd 9007199254740992 1 = 9007199254740992"
proof -
  have "\<lfloor>log 2 (9007199254740993 :: real)\<rfloor> = int 53" by (rule floor_log2) simp_all
  then show ?thesis
    by (simp add: doubleAdd_def toDouble_def roundHalfEven_def Let_def powr_minus)
qed

lemma sumFrom_snoc:
  "numberOrNull v \<Longrightarrow>
   sumFrom add s (vs @ [v]) =
     (if notNull v then (case toNumber v of Some r \<Rightarrow> add (sumFrom add s vs) r
                                          | None \<Rightarrow> sumFrom add s vs)
      else sumFrom add s vs)"
  by (cases v) (simp_all add: sumFrom_def numberOrNull_def)

lemma sumFrom_exact: "sumFrom (\<lambda>x y. x + y) s vs = s + sumNonNull vs"
proof (induction vs rule: rev_induct)
  case Nil
  then show ?case by (simp add: sumFrom_def sumNonNull_def)
next
  case (snoc v vs)
  then show ?case by (cases v) (simp_all add: sumFrom_def sumNonNull_def)
qed

lemma addToAccumulator_own:
  assumes "name \<notin> set objectPrototypeNames"
  shows "fst (addToAccumulator add this name v st) = None"
    and "register this name (snd (addToAccumulator add this name v st)) =
           Some (pushValue add (case register this name st of
                                  None \<Rightarrow> emptyAccumulator | Some a \<Rightarrow> a) v)"
  using assms
  by (auto simp: register_def addToAccumulator_def hasProperty_def Let_def
      split: option.splits)

lemma addAll_own:
  assumes "name \<notin> set objectPrototypeNames"
  shows "fst (addAll add this name vs st) = None
       \<and> (vs \<noteq> [] \<longrightarrow> register this name (snd (addAll add this name vs st)) =
             Some (foldl (pushValue add)
                     (case register this name st of None \<Rightarrow> emptyAccumulator | Some a \<Rightarrow> a) vs))"
proof (induction vs arbitrary: st)
  case Nil
  then show ?case by simp
next
  case (Cons v vs)
  obtain st' where st': "addToAccumulator add this name v st = (None, st')"
    using addToAccumulator_own(1) [OF assms, where add = add and this = this and v = v and st = st]
    by (cases "addToAccumulator add this name v st") auto
  have r: "register this name st' =
           Some (pushValue add (case register this name st of
                                  None \<Rightarrow> emptyAccumulator | Some a \<Rightarrow> a) v)"
    using addToAccumulator_own(2) [OF assms, where add = add and this = this and v = v and st = st]
      st' by simp
  show ?case
  proof (cases "vs = []")
    case True
    with st' r show ?thesis by simp
  next
    case False
    with Cons.IH [of st'] st' r show ?thesis by simp
  qed
qed

lemma foldl_pushValue:
  assumes "list_all numberOrNull vs"
  shows "acc_value (foldl (pushValue add) a vs) = acc_value a @ vs
       \<and> length (acc_sum (foldl (pushValue add) a vs)) = length (acc_sum a) + length vs
       \<and> (\<forall>i<length vs. acc_sum (foldl (pushValue add) a vs) ! (length (acc_sum a) + i)
                          = sumFrom add (acc_currentSum a) (take (Suc i) vs))
       \<and> acc_currentSum (foldl (pushValue add) a vs) = sumFrom add (acc_currentSum a) vs"
  using assms
proof (induction vs rule: rev_induct)
  case Nil
  then show ?case by (simp add: sumFrom_def)
next
  case (snoc v vs)
  let ?b = "foldl (pushValue add) a vs"
  from snoc.prems have nv: "numberOrNull v" and ih: "acc_value ?b = acc_value a @ vs"
    "length (acc_sum ?b) = length (acc_sum a) + length vs"
    "\<forall>i<length vs. acc_sum ?b ! (length (acc_sum a) + i)
                          = sumFrom add (acc_currentSum a) (take (Suc i) vs)"
    "acc_currentSum ?b = sumFrom add (acc_currentSum a) vs"
    using snoc.IH by simp_all
  have new: "acc_currentSum (pushValue add ?b v) = sumFrom add (acc_currentSum a) (vs @ [v])"
    using nv ih(4)
    by (cases v) (simp_all add: pushValue_def Let_def sumFrom_snoc numberOrNull_def)
  have sums: "acc_sum (pushValue add ?b v) = acc_sum ?b @ [acc_currentSum (pushValue add ?b v)]"
    by (simp add: pushValue_def Let_def)
  have vals: "acc_value (pushValue add ?b v) = acc_value ?b @ [v]"
    by (simp add: pushValue_def Let_def)
  have "acc_sum (pushValue add ?b v) ! (length (acc_sum a) + i)
          = sumFrom add (acc_currentSum a) (take (Suc i) (vs @ [v]))"
    if "i < length (vs @ [v])" for i
  proof (cases "i < length vs")
    case True
    then show ?thesis using ih(2,3) by (simp add: sums nth_append)
  next
    case False
    with that have "i = length vs" by simp
    then show ?thesis using ih(2) new by (simp add: sums nth_append)
  qed
  then show ?case using ih(1,2) new by (simp add: sums vals)
qed

text \<open>
  Claim C4, as stated, fails. The running sums are sums of doubles: after recording
  \<open>2 ^ 53\<close> and then 1 both running sums are \<open>2 ^ 53\<close>, while the sum of the two values
  is \<open>2 ^ 53 + 1\<close>. And a register is not created for every name: for the name
  \<^verbatim>\<open>toString\<close>, which the table inherits, the first call raises a \<^verbatim>\<open>TypeError\<close> and
  leaves no register.
\<close>

theorem addToAccumulator_rounds_and_throws_counterexample:
  "map_option acc_sum (register rootContext ''big''
       (snd (addAll doubleAdd rootContext ''big'' [JNum (2 ^ 53), JNum 1] emptyStore)))
     = Some [2 ^ 53, 2 ^ 53]
   \<and> sumNonNull [JNum (2 ^ 53), JNum 1] = 2 ^ 53 + 1
   \<and> fst (addToAccumulator doubleAdd rootContext ''toString'' (JNum 1) emptyStore)
       = Some TypeError
   \<and> register rootContext ''toString''
        (snd (addToAccumulator doubleAdd rootContext ''toString'' (JNum 1) emptyStore)) = None"
  by (simp add: register_def emptyStore_def rootContext_def hasProperty_def
      objectPrototypeNames_def addToAccumulator_def pushValue_def emptyAccumulator_def Let_def
      doubleAdd_0_big doubleAdd_big_1 sumNonNull_def)

text \<open>
  Claim C4, amended. For a name that the table does not inherit and that has no
  register yet, the first call of \<open>addToAccumulator\<close> creates the register, and no call
  raises an exception. After the calls with the values \<open>v0, ..., vn\<close>, each a number or
  \<^verbatim>\<open>null\<close>, the register holds the values in the order of the calls and as many
  running sums as values; the \<open>i\<close>-th running sum is the result of adding the non-null
  values among \<open>v0, ..., vi\<close> to 0 one after the other, in the order of the calls, with
  the language's addition, and \<open>currentSum\<close> is the last running sum. Where the
  additions are exact, that is the sum of the non-null values.
\<close>

theorem addToAccumulator_running_sums:
  assumes "name \<notin> set objectPrototypeNames"
    and "register this name st = None" and "list_all numberOrNull vs" and "vs \<noteq> []"
  shows "fst (addToAccumulator add this name (hd vs) st) = None
       \<and> register this name (snd (addToAccumulator add this name (hd vs) st))
           = Some (pushValue add emptyAccumulator (hd vs))
       \<and> fst (addAll add this name vs st) = None
       \<and> (\<exists>acc. register this name (snd (addAll add this name vs st)) = Some acc
          \<and> acc_value acc = vs
          \<and> length (acc_sum acc) = length vs
          \<and> (\<forall>i<length vs. acc_sum acc ! i = sumFrom add 0 (take (Suc i) vs))
          \<and> acc_currentSum acc = last (acc_sum acc))
       \<and> sumFrom (\<lambda>x y. x + y) 0 vs = sumNonNull vs"
proof -
  let ?acc = "foldl (pushValue add) emptyAccumulator vs"
  have ok: "fst (addAll add this name vs st) = None"
    using addAll_own [OF assms(1), where add = add and this = this and vs = vs and st = st]
    by simp
  have r: "register this name (snd (addAll add this name vs st)) = Some ?acc"
    using addAll_own [OF assms(1), where add = add and this = this and vs = vs and st = st]
      assms(2,4) by simp
  have p: "acc_value ?acc = vs" "length (acc_sum ?acc) = length vs"
    "\<forall>i<length vs. acc_sum ?acc ! i = sumFrom add 0 (take (Suc i) vs)"
    "acc_currentSum ?acc = sumFrom add 0 vs"
    using foldl_pushValue [OF assms(3), of add emptyAccumulator]
    by (simp_all add: emptyAccumulator_def)
  have "acc_sum ?acc \<noteq> []" using p(2) assms(4) by auto
  then have "last (acc_sum ?acc) = acc_sum ?acc ! (length vs - 1)"
    using p(2) by (simp add: last_conv_nth)
  also have "\<dots> = sumFrom add 0 (take (Suc (length vs - 1)) vs)"
    using p(3) assms(4) by simp
  also have "\<dots> = sumFrom add 0 vs" using assms(4) by simp
  finally have l: "acc_currentSum ?acc = last (acc_sum ?acc)" using p(4) by simp
  have f: "fst (addToAccumulator add this name (hd vs) st) = None"
    "register this name (snd (addToAccumulator add this name (hd vs) st))
           = Some (pushValue add emptyAccumulator (hd vs))"
    using addToAccumulator_own
            [OF assms(1), where add = add and this = this and v = "hd vs" and st = st]
      assms(2) by simp_all
  have e: "sumFrom (\<lambda>x y. x + y) 0 vs = sumNonNull vs"
    by (simp add: sumFrom_exact)
  from ok r p(1,2,3) l f e show ?thesis by blast
qed

lemma offset_not_inherited: "''offset'' \<notin> set objectPrototypeNames"
  by (simp add: objectPrototypeNames_def)

lemma offset_register:
  "register rootContext ''offset'' offsetStore
       = Some \<lparr>acc_value = [JNum 4, JNum 8, JNull], acc_sum = [4, 12, 12], acc_currentSum = 12\<rparr>"
  by (simp add: register_def emptyStore_def rootContext_def offsetStore_def hasProperty_def
      offset_not_inherited addToAccumulator_def pushValue_def emptyAccumulator_def Let_def
      doubleAdd_0_4 doubleAdd_4_8)

theorem addToAccumulator_running_sums_witness:
  "''offset'' \<notin> set objectPrototypeNames
   \<and> register rootContext ''offset'' emptyStore = None
   \<and> list_all numberOrNull [JNum 4, JNum 8, JNull]
   \<and> fst (addAll doubleAdd rootContext ''offset'' [JNum 4, JNum 8, JNull] emptyStore) = None
   \<and> register rootContext ''offset''
        (snd (addAll doubleAdd rootContext ''offset'' [JNum 4, JNum 8, JNull] emptyStore))
       = Some \<lparr>acc_value = [JNum 4, JNum 8, JNull], acc_sum = [4, 12, 12], acc_currentSum = 12\<rparr>"
proof -
  have a: "register rootContext ''offset'' emptyStore = None"
    by (simp add: register_def emptyStore_def)
  have b: "list_all numberOrNull [JNum 4, JNum 8, JNull]"
    by (simp add: numberOrNull_def)
  from addToAccumulator_running_sums
         [OF offset_not_inherited a b, where add = doubleAdd,
          THEN conjunct2, THEN conjunct2, THEN conjunct1]
  have "fst (addAll doubleAdd rootContext ''offset'' [JNum 4, JNum 8, JNull] emptyStore) = None"
    by simp
  with a b offset_not_inherited offset_register show ?thesis
    by (simp add: offsetStore_def)
qed

lemma iterateAccumulator_loop_concat:
  "iterateAccumulator_loop this acc fn i ret =
     ret @ concat (map (\<lambda>k. fn (iterateAccumulator_newContext this acc k))
                     [i..<length (acc_value acc)])"
proof (induction this acc fn i ret rule: iterateAccumulator_loop.induct)
  case (1 this acc fn i ret)
  show ?case
  proof (cases "i < length (acc_value acc)")
    case True
    then have "[i..<length (acc_value acc)] = i # [Suc i..<length (acc_value acc)]"
      by (simp add: upt_conv_Cons)
    with True 1 show ?thesis by (subst iterateAccumulator_loop.simps) simp
  next
    case False
    then show ?thesis by (subst iterateAccumulator_loop.simps) simp
  qed
qed

lemma newContext_in_range:
  "i < length (acc_value acc) \<Longrightarrow> length (acc_value acc) \<le> length (acc_sum acc) \<Longrightarrow>
   iterateAccumulator_newContext this acc i =
     Context (ctx_global this) (Some this) (JNum (real i))
       (JNum (real (length (acc_value acc)))) (JNum (acc_sum acc ! i)) (acc_value acc ! i)"
  by (simp add: iterateAccumulator_newContext_def sumAt_def valueAt_def)

text \<open>
  What \<open>iterateAccumulator\<close> does for a register that is stored, for a name that is
  neither stored nor inherited, and for a global object without a table.
\<close>

lemma iterateAccumulator_own_register:
  assumes r: "register this name st = Some acc"
    and l: "length (acc_value acc) \<le> length (acc_sum acc)"
  shows "iterateAccumulator this name fn st =
          Inr (concat (map (\<lambda>i. fn (Context (ctx_global this) (Some this) (JNum (real i))
                                 (JNum (real (length (acc_value acc))))
                                 (JNum (acc_sum acc ! i)) (acc_value acc ! i)))
                       [0..<length (acc_value acc)]))"
proof -
  have "map (\<lambda>k. fn (iterateAccumulator_newContext this acc k)) [0..<length (acc_value acc)]
        = map (\<lambda>i. fn (Context (ctx_global this) (Some this) (JNum (real i))
                                 (JNum (real (length (acc_value acc))))
                                 (JNum (acc_sum acc ! i)) (acc_value acc ! i)))
                       [0..<length (acc_value acc)]"
    using l by (intro map_cong refl) (simp add: newContext_in_range)
  then have m: "iterateAccumulator_loop this acc fn 0 []
        = concat (map (\<lambda>i. fn (Context (ctx_global this) (Some this) (JNum (real i))
                                 (JNum (real (length (acc_value acc))))
                                 (JNum (acc_sum acc ! i)) (acc_value acc ! i)))
                       [0..<length (acc_value acc)])"
    by (simp only: iterateAccumulator_loop_concat append_Nil)
  from r obtain accs where "accumulators (globals st (ctx_global this)) = Some accs"
    and "accs name = Some acc"
    by (auto simp: register_def split: option.splits)
  then have "iterateAccumulator this name fn st = Inr (iterateAccumulator_loop this acc fn 0 [])"
    by (simp add: iterateAccumulator_def)
  with m show ?thesis by simp
qed

lemma iterateAccumulator_no_register:
  assumes "register this name st = None" and "name \<notin> set objectPrototypeNames"
  shows "iterateAccumulator this name fn st = Inr []"
  using assms by (simp add: register_def iterateAccumulator_def split: option.splits)

lemma iterateAccumulator_no_table:
  assumes "accumulators (globals st (ctx_global this)) = None"
  shows "iterateAccumulator this name fn st = Inr []"
  using assms by (simp add: iterateAccumulator_def)

text \<open>
  Claim C5 says that \<open>iterateAccumulator\<close> renders the empty string when no register of
  the name exists. The helper does so when the global object has no table, and for a
  name such as \<^verbatim>\<open>other\<close>. For the name \<^verbatim>\<open>toString\<close>, under which no register exists
  either, it raises a \<^verbatim>\<open>TypeError\<close> once the table exists, here after 4 was recorded
  under the name \<^verbatim>\<open>offset\<close>.
\<close>

theorem iterateAccumulator_inherited_name_throws:
  "register rootContext ''toString'' tableStore = None
   \<and> iterateAccumulator rootContext ''toString'' valueBody tableStore = Inl TypeError
   \<and> register rootContext ''other'' tableStore = None
   \<and> iterateAccumulator rootContext ''other'' valueBody tableStore = Inr []"
  by (simp add: register_def iterateAccumulator_def tableStore_def addToAccumulator_def
      hasProperty_def objectPrototypeNames_def emptyStore_def rootContext_def Let_def)

section \<open>Properties of the string helpers\<close>

lemma split_on_nonempty: "split_on c s \<noteq> []"
  by (induction s) (auto split: list.splits)

lemma split_on_no_sep: "c \<notin> set s \<Longrightarrow> split_on c s = [s]"
  by (induction s) auto

lemma split_on_sep: "c \<in> set s \<Longrightarrow> tl (split_on c s) \<noteq> []"
proof (induction s)
  case Nil
  then show ?case by simp
next
  case (Cons x xs)
  show ?case
  proof (cases "x = c")
    case True
    then show ?thesis by (simp add: split_on_nonempty)
  next
    case False
    with Cons show ?thesis by (auto split: list.splits)
  qed
qed

lemma last_split_on:
  "last (split_on c s) = rev (takeWhile (\<lambda>x. x \<noteq> c) (rev s))"
proof (induction s)
  case Nil
  then show ?case by simp
next
  case (Cons x xs)
  have tw: "takeWhile (\<lambda>x. x \<noteq> c) (rev xs @ [c]) = takeWhile (\<lambda>x. x \<noteq> c) (rev xs)"
  proof (cases "c \<in> set xs")
    case True
    then show ?thesis by simp
  next
    case False
    then have e1: "takeWhile (\<lambda>x. x \<noteq> c) (rev xs) = rev xs"
      by auto
    from False have e2: "takeWhile (\<lambda>x. x \<noteq> c) (rev xs @ [c]) = rev xs"
      by (subst takeWhile_append2) auto
    show ?thesis by (simp only: e1 e2)
  qed
  show ?case
  proof (cases "x = c")
    case True
    with Cons tw show ?thesis
      by (simp add: split_on_nonempty)
  next
    case False
    obtain w ws where sp: "split_on c xs = w # ws"
      using split_on_nonempty [of c xs] by (cases "split_on c xs") auto
    show ?thesis
    proof (cases "c \<in> set xs")
      case True
      then have "ws \<noteq> []"
        using sp split_on_sep [of c xs] by simp
      moreover have "takeWhile (\<lambda>x. x \<noteq> c) (rev xs @ [x]) = takeWhile (\<lambda>x. x \<noteq> c) (rev xs)"
        using True by simp
      ultimately show ?thesis
        using Cons False sp by simp
    next
      case c: False
      then have e3: "takeWhile (\<lambda>x. x \<noteq> c) (rev xs @ [x]) = rev xs @ [x]"
        using False by auto
      have "rev (takeWhile (\<lambda>x. x \<noteq> c) (rev (x # xs))) = x # xs"
        unfolding rev.simps e3 by simp
      moreover have "last (split_on c (x # xs)) = x # xs"
        using c False by (simp add: split_on_no_sep)
      ultimately show ?thesis by (simp only:)
    qed
  qed
qed

text \<open>
  Claim C10. For every string, \<open>asLastWord\<close> returns the last of the pieces that the
  trimmed string is split into at its spaces, which is the part of the trimmed string
  after its last space; without a space in the trimmed string that is the whole
  trimmed string. The split never gives an empty list, so the test
  \<^verbatim>\<open>strings.length > 0\<close> always holds and the final \<^verbatim>\<open>return str.trim()\<close> is never
  reached.
\<close>

theorem asLastWord_last_token:
  "0 < length (split_on (CHR '' '') (trim str))
   \<and> asLastWord str = last (split_on (CHR '' '') (trim str))
   \<and> asLastWord str = rev (takeWhile (\<lambda>c. c \<noteq> CHR '' '') (rev (trim str)))
   \<and> (CHR '' '' \<notin> set (trim str) \<longrightarrow> asLastWord str = trim str)"
proof -
  let ?ss = "split_on (CHR '' '') (trim str)"
  have ne: "?ss \<noteq> []" by (rule split_on_nonempty)
  then have a: "asLastWord str = last ?ss"
    by (simp add: asLastWord_def Let_def last_conv_nth)
  have b: "CHR '' '' \<notin> set (trim str) \<longrightarrow> asLastWord str = trim str"
    using a by (simp add: split_on_no_sep)
  from ne a b show ?thesis by (simp add: last_split_on)
qed

theorem asLastWord_last_token_witness:
  "asLastWord ''  unsigned  long int  '' = ''int''
   \<and> CHR '' '' \<notin> set (trim '' word '') \<and> asLastWord '' word '' = ''word''
   \<and> asLastWord [] = []"
  using asLastWord_last_token [of "'' word ''"]
  by (simp add: asLastWord_def trim_def isWhiteSpace_def Let_def)

section \<open>Properties of the barrier\<close>

lemma wait_resolved:
  "waitForSynchronousPromise fuel iv p now = Some (t, True) \<Longrightarrow> isResolved p t"
  by (induction fuel iv p now rule: waitForSynchronousPromise.induct)
     (auto split: if_splits)

lemma wait_rejected:
  "waitForSynchronousPromise fuel iv p now = Some (t, False) \<Longrightarrow> isRejected p t"
  by (induction fuel iv p now rule: waitForSynchronousPromise.induct)
     (auto split: if_splits)

lemma isResolved_settles: "isResolved p t \<longleftrightarrow> (\<exists>ts\<le>t. settles p = Some (ts, True))"
  by (auto simp: isResolved_def split: option.splits bool.splits)

lemma isRejected_settles: "isRejected p t \<longleftrightarrow> (\<exists>ts\<le>t. settles p = Some (ts, False))"
  by (auto simp: isRejected_def split: option.splits bool.splits)

lemma wait_settles:
  "settles p = Some (ts, b) \<Longrightarrow> ts \<le> now + k * iv \<Longrightarrow>
   \<exists>t. waitForSynchronousPromise (Suc k) iv p now = Some (t, b)"
proof (induction k arbitrary: now)
  case 0
  then show ?case by (cases b) (auto simp: isResolved_settles isRejected_settles)
next
  case (Suc k)
  from Suc.prems have "ts \<le> (now + iv) + k * iv" by simp
  from Suc.IH [OF Suc.prems(1) this]
  obtain t where t: "waitForSynchronousPromise (Suc k) iv p (now + iv) = Some (t, b)" by blast
  show ?case
  proof (cases "ts \<le> now")
    case True
    with Suc.prems(1) show ?thesis
      by (cases b) (auto simp: isResolved_settles isRejected_settles)
  next
    case False
    with Suc.prems(1) have "\<not> isResolved p now" "\<not> isRejected p now"
      by (auto simp: isResolved_settles isRejected_settles)
    with t show ?thesis by simp
  qed
qed

lemma wait_settles_fuel:
  assumes "settles p = Some (ts, b)" and "ts < fuel"
  shows "\<exists>t. waitForSynchronousPromise fuel 100 p now = Some (t, b)"
proof -
  from assms(2) obtain k where k: "fuel = Suc k" by (cases fuel) auto
  with assms(2) have "ts \<le> now + k * 100" by simp
  from wait_settles [OF assms(1) this] k show ?thesis by simp
qed

lemma fold_max_ge: "a \<le> fold max xs (a::nat)"
  by (induction xs arbitrary: a) (auto intro: order_trans [OF max.cobounded2])

lemma fold_max_mem: "x \<in> set xs \<Longrightarrow> x \<le> fold max xs (a::nat)"
proof (induction xs arbitrary: a)
  case Nil
  then show ?case by simp
next
  case (Cons y ys)
  show ?case
  proof (cases "x = y")
    case True
    have "y \<le> max y a" by simp
    also have "\<dots> \<le> fold max ys (max y a)" by (rule fold_max_ge)
    finally show ?thesis using True by simp
  next
    case False
    with Cons show ?thesis by simp
  qed
qed

lemma rejectionTimes_empty:
  "rejectionTimes ws = [] \<longleftrightarrow> (\<forall>t. Some (t, False) \<notin> set ws)"
  by (induction ws) (auto simp: rejectionTimes_def split: option.splits bool.splits)

lemma promise_all_resolved:
  assumes "promise_all now ws = Some (t, True)" and "w \<in> set ws"
  shows "\<exists>t'\<le>t. w = Some (t', True)"
proof -
  from assms(1) have r: "rejectionTimes ws = []" and a: "list_all (\<lambda>w. w \<noteq> None) ws"
    and t: "t = fold max [t. Some (t, True) \<leftarrow> ws] now"
    by (auto simp: promise_all_def split: list.splits if_splits)
  from a assms(2) obtain t' b where w: "w = Some (t', b)"
    by (auto simp: list_all_iff)
  with r assms(2) have b: "b" by (cases b) (auto simp: rejectionTimes_empty)
  with w assms(2) have "t' \<in> set [t. Some (t, True) \<leftarrow> ws]" by force
  then have "t' \<le> t" unfolding t by (rule fold_max_mem)
  with w b show ?thesis by simp
qed

lemma promise_all_rejected:
  assumes "Some (t', False) \<in> set ws"
  shows "\<exists>t. promise_all now ws = Some (t, False)"
proof -
  from assms have "rejectionTimes ws \<noteq> []" by (auto simp: rejectionTimes_empty)
  then show ?thesis by (auto simp: promise_all_def split: list.splits)
qed

lemma promise_all_all_resolved:
  assumes "\<forall>w\<in>set ws. \<exists>t. w = Some (t, True)"
  shows "\<exists>t. promise_all now ws = Some (t, True)"
proof -
  from assms have "rejectionTimes ws = []" by (auto simp: rejectionTimes_empty)
  moreover from assms have "list_all (\<lambda>w. w \<noteq> None) ws"
    unfolding list_all_iff by blast
  ultimately show ?thesis by (simp add: promise_all_def)
qed

text \<open>
  Claim C1. The promise returned by \<open>after\<close> settles as follows, whenever and in
  whatever order the promises of \<^verbatim>\<open>global.promises\<close> at the call settle. If the body is
  rendered, at time \<open>t\<close>, then every promise of the list has resolved by \<open>t\<close>, and the
  text is the body's for the child context. If a promise of the list is rejected, the
  body is never rendered and, polling long enough, the barrier fails. If the list is
  empty, the barrier resolves at the time of the call, without looking at any promise,
  and the body is rendered. If every promise of the list resolves, polling long enough
  renders the body.
\<close>

theorem after_waits_for_all_pending:
  "(\<forall>t s. after fuel this fn st now = Some (t, Rendered s) \<longrightarrow>
       s = fn (Context (ctx_global this) (Some this) JUndefined JUndefined JUndefined JUndefined)
       \<and> (\<forall>p \<in> set (promises (globals st (ctx_global this))).
             \<exists>ts\<le>t. settles p = Some (ts, True)))
   \<and> ((\<exists>p \<in> set (promises (globals st (ctx_global this))). \<exists>ts. settles p = Some (ts, False)) \<longrightarrow>
        (\<forall>k t s. after k this fn st now \<noteq> Some (t, Rendered s))
        \<and> (\<exists>fuel0. \<forall>k\<ge>fuel0. \<exists>t. after k this fn st now = Some (t, Failed)))
   \<and> (promises (globals st (ctx_global this)) = [] \<longrightarrow>
        after 0 this fn st now = Some (now,
          Rendered (fn (Context (ctx_global this) (Some this) JUndefined JUndefined JUndefined JUndefined))))
   \<and> ((\<forall>p \<in> set (promises (globals st (ctx_global this))). \<exists>ts. settles p = Some (ts, True)) \<longrightarrow>
        (\<exists>fuel0. \<forall>k\<ge>fuel0. \<exists>t. after k this fn st now = Some (t,
          Rendered (fn (Context (ctx_global this) (Some this) JUndefined JUndefined JUndefined JUndefined)))))"
proof -
  let ?ps = "promises (globals st (ctx_global this))"
  let ?c = "Context (ctx_global this) (Some this) JUndefined JUndefined JUndefined JUndefined"
  have rendered: "s = fn ?c \<and> (\<forall>p \<in> set ?ps. \<exists>ts\<le>t. settles p = Some (ts, True))"
    if r: "after k this fn st now = Some (t, Rendered s)" for k t s
  proof -
    from r have w: "promiseToResolveAllPreviousPromises k ?ps now = Some (t, True)"
      and s: "s = fn ?c"
      by (auto simp: after_def after_newContext_def split: option.splits bool.splits)
    have "\<exists>ts\<le>t. settles p = Some (ts, True)" if p: "p \<in> set ?ps" for p
    proof -
      from p have "?ps \<noteq> []" by auto
      with w have "promise_all now (map (\<lambda>p. waitForSynchronousPromise k 100 p now) ?ps)
                     = Some (t, True)"
        by (simp add: promiseToResolveAllPreviousPromises_def)
      from promise_all_resolved [OF this, of "waitForSynchronousPromise k 100 p now"] p
      obtain t' where "t' \<le> t" "waitForSynchronousPromise k 100 p now = Some (t', True)"
        by auto
      then show ?thesis
        using wait_resolved [of k 100 p now t'] by (auto simp: isResolved_settles)
    qed
    with s show ?thesis by blast
  qed
  have failed: "(\<forall>k t s. after k this fn st now \<noteq> Some (t, Rendered s))
        \<and> (\<exists>fuel0. \<forall>k\<ge>fuel0. \<exists>t. after k this fn st now = Some (t, Failed))"
    if p: "p \<in> set ?ps" and f: "settles p = Some (ts, False)" for p ts
  proof
    show "\<forall>k t s. after k this fn st now \<noteq> Some (t, Rendered s)"
      using rendered p f by fastforce
    have "\<exists>t. after k this fn st now = Some (t, Failed)" if k: "Suc ts \<le> k" for k
    proof -
      from wait_settles_fuel [OF f, of k now] k
      obtain t' where "waitForSynchronousPromise k 100 p now = Some (t', False)" by auto
      with p have "Some (t', False) \<in> set (map (\<lambda>p. waitForSynchronousPromise k 100 p now) ?ps)"
        by force
      from promise_all_rejected [OF this, of now] p show ?thesis
        by (auto simp: after_def promiseToResolveAllPreviousPromises_def)
    qed
    then show "\<exists>fuel0. \<forall>k\<ge>fuel0. \<exists>t. after k this fn st now = Some (t, Failed)"
      by blast
  qed
  have empty: "after 0 this fn st now = Some (now, Rendered (fn ?c))" if "?ps = []"
    using that by (simp add: after_def promiseToResolveAllPreviousPromises_def after_newContext_def)
  have live: "\<exists>fuel0. \<forall>k\<ge>fuel0. \<exists>t. after k this fn st now = Some (t, Rendered (fn ?c))"
    if a: "\<forall>p \<in> set ?ps. \<exists>ts. settles p = Some (ts, True)"
  proof -
    let ?time = "\<lambda>p. case settles p of Some (ts, b) \<Rightarrow> ts | None \<Rightarrow> 0"
    let ?f0 = "Suc (fold max (map ?time ?ps) 0)"
    have "\<exists>t. after k this fn st now = Some (t, Rendered (fn ?c))" if k: "?f0 \<le> k" for k
    proof -
      have "\<exists>t. w = Some (t, True)"
        if w: "w \<in> set (map (\<lambda>p. waitForSynchronousPromise k 100 p now) ?ps)" for w
      proof -
        from w obtain p where p: "p \<in> set ?ps" and wp: "w = waitForSynchronousPromise k 100 p now"
          by auto
        from a p obtain ts where ts: "settles p = Some (ts, True)" by blast
        with p have "ts \<in> set (map ?time ?ps)" by force
        then have "ts \<le> fold max (map ?time ?ps) 0" by (rule fold_max_mem)
        with k have "ts < k" by simp
        from wait_settles_fuel [OF ts this, of now] wp show ?thesis by simp
      qed
      then have "\<exists>t. promise_all now (map (\<lambda>p. waitForSynchronousPromise k 100 p now) ?ps)
                   = Some (t, True)"
        by (intro promise_all_all_resolved) blast
      then show ?thesis
        by (auto simp: after_def promiseToResolveAllPreviousPromises_def after_newContext_def)
    qed
    then show ?thesis by blast
  qed
  from rendered failed empty live show ?thesis by blast
qed



lemma after_two_pending:
  "after 4 rootContext markBody (pendingStore [slowPromise, fastPromise]) 0
     = Some (300, Rendered ''-'')"
  by code_simp

lemma after_one_failing:
  "after 3 rootContext markBody (pendingStore [slowPromise, failingPromise]) 0
     = Some (200, Failed)"
  by code_simp

theorem after_waits_for_all_pending_witness:
  "after 4 rootContext markBody (pendingStore [slowPromise, fastPromise]) 0
     = Some (300, Rendered ''-'')
   \<and> (\<exists>ts\<le>300. settles slowPromise = Some (ts, True))
   \<and> (\<exists>ts\<le>300. settles fastPromise = Some (ts, True))
   \<and> settles failingPromise = Some (130, False)
   \<and> after 3 rootContext markBody (pendingStore [slowPromise, failingPromise]) 0
     = Some (200, Failed)
   \<and> (\<forall>k t s. after k rootContext markBody (pendingStore [slowPromise, failingPromise]) 0
                \<noteq> Some (t, Rendered s))
   \<and> after 0 rootContext markBody (pendingStore []) 0 = Some (0, Rendered ''-'')"
proof -
  have ps: "promises (globals (pendingStore qs) a) = qs" for qs a
    by (simp add: pendingStore_def)
  have "\<forall>p \<in> set [slowPromise, fastPromise]. \<exists>ts\<le>300. settles p = Some (ts, True)"
    using after_waits_for_all_pending
            [of 4 rootContext markBody "pendingStore [slowPromise, fastPromise]" 0,
             THEN conjunct1, rule_format, OF after_two_pending, THEN conjunct2]
    unfolding ps .
  then have a: "(\<exists>ts\<le>300. settles slowPromise = Some (ts, True))
         \<and> (\<exists>ts\<le>300. settles fastPromise = Some (ts, True))"
    by simp
  have "after 0 rootContext markBody (pendingStore []) 0 = Some (0, Rendered
          (markBody (Context (ctx_global rootContext) (Some rootContext)
             JUndefined JUndefined JUndefined JUndefined)))"
    using after_waits_for_all_pending
            [of 0 rootContext markBody "pendingStore []" 0,
             THEN conjunct2, THEN conjunct2, THEN conjunct1, rule_format, OF ps] .
  then have b: "after 0 rootContext markBody (pendingStore []) 0 = Some (0, Rendered ''-'')"
    by (simp add: markBody_def)
  have c: "settles failingPromise = Some (130, False)"
    by (simp add: failingPromise_def)
  have "\<exists>p \<in> set (promises (globals (pendingStore [slowPromise, failingPromise])
                              (ctx_global rootContext))). \<exists>ts. settles p = Some (ts, False)"
    unfolding ps using c by simp
  from after_waits_for_all_pending
         [of 0 rootContext markBody "pendingStore [slowPromise, failingPromise]" 0,
          THEN conjunct2, THEN conjunct1, rule_format, OF this, THEN conjunct1]
  have d: "\<forall>k t s. after k rootContext markBody (pendingStore [slowPromise, failingPromise]) 0
                \<noteq> Some (t, Rendered s)" .
  from a b c d after_two_pending after_one_failing show ?thesis by simp
qed

section \<open>Properties of the child contexts\<close>

lemma descendant_global: "descendant rt c \<Longrightarrow> ctx_global c = ctx_global rt"
  by (induction rule: descendant.induct)
     (simp_all add: iterate_newContext_def iterateAccumulator_newContext_def after_newContext_def)

text \<open>
  Claim C9. The context that \<open>iterate\<close>, \<open>iterateAccumulator\<close> or \<open>after\<close> builds has
  the reference to the global object of the context the helper was called on (the same
  address, not a copy of the object) and that context as its parent. The helpers pass
  only such contexts to the body: two bodies that agree on them give the same result.
  So every context descending from a root refers to the root's global object: what is
  recorded through the root is seen through the descendant, and recording through the
  descendant is recording through the root.
\<close>

theorem child_contexts_share_global:
  "ctx_global (iterate_newContext this cnt i) = ctx_global this
   \<and> ctx_parent (iterate_newContext this cnt i) = Some this
   \<and> ctx_global (iterateAccumulator_newContext this acc i) = ctx_global this
   \<and> ctx_parent (iterateAccumulator_newContext this acc i) = Some this
   \<and> ctx_global (after_newContext this) = ctx_global this
   \<and> ctx_parent (after_newContext this) = Some this
   \<and> ((\<forall>c. ctx_global c = ctx_global this \<and> ctx_parent c = Some this \<longrightarrow> fn c = fn' c) \<longrightarrow>
        iterate this cnt fn = iterate this cnt fn'
        \<and> iterateAccumulator this name fn st = iterateAccumulator this name fn' st
        \<and> after fuel this fn st now = after fuel this fn' st now)
   \<and> (descendant rt c \<longrightarrow>
        ctx_global c = ctx_global rt
        \<and> globals st (ctx_global c) = globals st (ctx_global rt)
        \<and> register c name (snd (addToAccumulator add rt name v st))
            = register rt name (snd (addToAccumulator add rt name v st))
        \<and> addToAccumulator add c name v st = addToAccumulator add rt name v st)"
proof -
  have direct:
    "ctx_global (iterate_newContext this cnt i) = ctx_global this"
    "ctx_parent (iterate_newContext this cnt i) = Some this"
    "ctx_global (iterateAccumulator_newContext this acc i) = ctx_global this"
    "ctx_parent (iterateAccumulator_newContext this acc i) = Some this"
    "ctx_global (after_newContext this) = ctx_global this"
    "ctx_parent (after_newContext this) = Some this" for acc i cnt
    by (simp_all add: iterate_newContext_def iterateAccumulator_newContext_def
        after_newContext_def)
  have cong: "iterate this cnt fn = iterate this cnt fn'
        \<and> iterateAccumulator this name fn st = iterateAccumulator this name fn' st
        \<and> after fuel this fn st now = after fuel this fn' st now"
    if eq: "\<forall>c. ctx_global c = ctx_global this \<and> ctx_parent c = Some this \<longrightarrow> fn c = fn' c"
  proof -
    have 1: "fn (iterate_newContext this cnt k) = fn' (iterate_newContext this cnt k)" for k
      using eq direct(1,2) by blast
    have 2: "fn (iterateAccumulator_newContext this a k)
               = fn' (iterateAccumulator_newContext this a k)" for a k
      using eq direct(3,4) by blast
    have 3: "fn (after_newContext this) = fn' (after_newContext this)"
      using eq direct(5,6) by blast
    have "iterate this cnt fn = iterate this cnt fn'"
      by (simp add: iterate_def iterate_loop_concat 1)
    moreover have "iterateAccumulator this name fn st = iterateAccumulator this name fn' st"
      by (simp add: iterateAccumulator_def iterateAccumulator_loop_concat 2
          split: option.splits)
    moreover have "after fuel this fn st now = after fuel this fn' st now"
      by (auto simp: after_def 3 split: option.splits bool.splits)
    ultimately show ?thesis by simp
  qed
  have desc: "ctx_global c = ctx_global rt
        \<and> globals st (ctx_global c) = globals st (ctx_global rt)
        \<and> register c name (snd (addToAccumulator add rt name v st))
            = register rt name (snd (addToAccumulator add rt name v st))
        \<and> addToAccumulator add c name v st = addToAccumulator add rt name v st"
    if "descendant rt c"
    using descendant_global [OF that] by (simp add: register_def addToAccumulator_def)
  from direct cong desc show ?thesis by blast
qed

theorem child_contexts_share_global_witness:
  "descendant rootContext nestedContext
   \<and> ctx_global nestedContext = ctx_global rootContext
   \<and> ctx_parent nestedContext = Some (after_newContext rootContext)
   \<and> register nestedContext ''offset''
         (snd (addToAccumulator doubleAdd rootContext ''offset'' (JNum 4) emptyStore))
       = register rootContext ''offset''
           (snd (addToAccumulator doubleAdd rootContext ''offset'' (JNum 4) emptyStore))
   \<and> addToAccumulator doubleAdd nestedContext ''offset'' (JNum 4) emptyStore
       = addToAccumulator doubleAdd rootContext ''offset'' (JNum 4) emptyStore"
proof -
  have d: "descendant rootContext nestedContext"
    unfolding nestedContext_def
    by (intro descendant_iterate descendant_after descendant_root)
  note t = child_contexts_share_global
             [where this = "after_newContext rootContext" and cnt = "JNum 2" and i = 1
                and rt = rootContext and c = nestedContext and st = emptyStore
                and name = "''offset''" and v = "JNum 4" and acc = emptyAccumulator
                and fn = markBody and fn' = markBody and fuel = 0 and now = 0
                and add = doubleAdd]
  from t d show ?thesis
    by (simp add: nestedContext_def)
qed

section \<open>Properties of the option lookups\<close>

lemma promise_then_store:
  "promise_then p cb st = (q, st') \<Longrightarrow>
     globals st' = globals st \<and> nextPid st' = Suc (nextPid st) \<and> pid q = nextPid st"
  by (auto simp: promise_then_def)

text \<open>
  Claim C2, as stated, fails: the helpers do not put the operation they create into
  \<^verbatim>\<open>global.promises\<close>. Even with a package lookup that registers its own promise, the
  promise that \<open>template_options\<close> returns is not in the list after the call; it settles
  after 410 milliseconds, and a barrier invoked after the call renders its body after
  100 milliseconds. The promise that \<open>template_option_with_code\<close> returns is not in the
  list either.
\<close>

theorem option_lookups_unregistered_counterexample:
  "pid (fst (template_options registeringPackageId slowLookup collectNow rootContext emptyStore))
     \<notin> set (map pid (promises (globals
            (snd (template_options registeringPackageId slowLookup collectNow rootContext emptyStore))
            (ctx_global rootContext))))
   \<and> settles (fst (template_options registeringPackageId slowLookup collectNow rootContext emptyStore))
       = Some (410, True)
   \<and> after 2 rootContext markBody
         (snd (template_options registeringPackageId slowLookup collectNow rootContext emptyStore)) 0
       = Some (100, Rendered ''-'')
   \<and> pid (fst (template_option_with_code registeringPackageId slowLookup rootContext emptyStore))
     \<notin> set (map pid (promises (globals
            (snd (template_option_with_code registeringPackageId slowLookup rootContext emptyStore))
            (ctx_global rootContext))))"
  by code_simp

text \<open>
  Claim C2, amended. The option lookups create their asynchronous operation as a chain
  of promises and return it to the caller without registering it. Whatever the package
  lookup does, provided every promise it leaves in \<^verbatim>\<open>global.promises\<close> exists when it
  returns: after the call the global objects are as the package lookup left them, and
  the returned promise is not in \<^verbatim>\<open>global.promises\<close>. A barrier waits on it only if
  the caller puts it there.
\<close>

theorem option_lookups_not_registered:
  assumes "ensureTemplatePackageId this st = (p0, st0)"
    and "list_all (\<lambda>q. pid q < nextPid st0) (promises (globals st0 (ctx_global this)))"
  shows "(case template_options ensureTemplatePackageId sel col this st of
            (p, st') \<Rightarrow> globals st' = globals st0
                        \<and> pid p \<notin> set (map pid (promises (globals st' (ctx_global this)))))
       \<and> (case template_option_with_code ensureTemplatePackageId sel this st of
            (p, st') \<Rightarrow> globals st' = globals st0
                        \<and> pid p \<notin> set (map pid (promises (globals st' (ctx_global this)))))"
proof -
  have below: "n \<notin> set (map pid (promises (globals st0 (ctx_global this))))"
    if "nextPid st0 \<le> n" for n
    using assms(2) that by (auto simp: list_all_iff)
  obtain p1 st1 where 1: "promise_then p0 sel st0 = (p1, st1)" by (cases "promise_then p0 sel st0")
  obtain p2 st2 where 2: "promise_then p1 col st1 = (p2, st2)" by (cases "promise_then p1 col st1")
  note a = promise_then_store [OF 1] and b = promise_then_store [OF 2]
  have "template_options ensureTemplatePackageId sel col this st = (p2, st2)"
    using assms(1) 1 2 by (simp add: template_options_def)
  moreover have "globals st2 = globals st0" using a b by simp
  moreover have "pid p2 \<notin> set (map pid (promises (globals st0 (ctx_global this))))"
    using a b by (intro below) simp
  moreover have "template_option_with_code ensureTemplatePackageId sel this st = (p1, st1)"
    using assms(1) 1 by (simp add: template_option_with_code_def)
  moreover have "pid p1 \<notin> set (map pid (promises (globals st0 (ctx_global this))))"
    using a by (intro below) simp
  ultimately show ?thesis using a by simp
qed

theorem option_lookups_not_registered_witness:
  "list_all (\<lambda>q. pid q < nextPid (snd (registeringPackageId rootContext emptyStore)))
     (promises (globals (snd (registeringPackageId rootContext emptyStore)) (ctx_global rootContext)))
   \<and> promises (globals (snd (template_options registeringPackageId slowLookup collectNow
                              rootContext emptyStore)) (ctx_global rootContext))
       = [\<lparr>pid = 0, settles = Some (10, True)\<rparr>]
   \<and> pid (fst (template_options registeringPackageId slowLookup collectNow rootContext emptyStore)) = 2"
proof -
  have h: "list_all (\<lambda>q. pid q < nextPid (snd (registeringPackageId rootContext emptyStore)))
     (promises (globals (snd (registeringPackageId rootContext emptyStore)) (ctx_global rootContext)))"
    by code_simp
  from option_lookups_not_registered
         [of registeringPackageId rootContext emptyStore
             "fst (registeringPackageId rootContext emptyStore)"
             "snd (registeringPackageId rootContext emptyStore)" slowLookup collectNow, OF _ h]
  have "case template_options registeringPackageId slowLookup collectNow rootContext emptyStore of
            (p, st') \<Rightarrow> globals st' = globals (snd (registeringPackageId rootContext emptyStore))
                        \<and> pid p \<notin> set (map pid (promises (globals st' (ctx_global rootContext))))"
    by simp
  then have "globals (snd (template_options registeringPackageId slowLookup collectNow
                              rootContext emptyStore))
             = globals (snd (registeringPackageId rootContext emptyStore))"
    by (simp add: case_prod_beta)
  moreover have "promises (globals (snd (registeringPackageId rootContext emptyStore))
                    (ctx_global rootContext)) = [\<lparr>pid = 0, settles = Some (10, True)\<rparr>]"
    by code_simp
  moreover have "pid (fst (template_options registeringPackageId slowLookup collectNow rootContext emptyStore)) = 2"
    by code_simp
  ultimately show ?thesis using h by simp
qed

end
